theory Spec2Isabelle
  imports Main
begin

section \<open>Values that cross the interface of augur/io.py\<close>

text \<open>
  The module is glue between three libraries: \<^verbatim>\<open>pathlib\<close>, \<^verbatim>\<open>xopen\<close> and
  \<^verbatim>\<open>Bio.SeqIO\<close>. A sequence record is opaque to it (it is only passed through), a format
  tag and the text of a file are strings.
\<close>

type_synonym format = string
type_synonym content = string

datatype seq_record = SeqRecord (rec_id: string) (rec_seq: string)

text \<open>Exceptions are values; each carries its message or the file name it is about.\<close>

datatype py_error =
    TypeError string
  | ValueError string
  | AttributeError string
  | FileNotFoundError string
  | NotADirectoryError string
  | IsADirectoryError string
  | PermissionError string

text \<open>
  The argument \<^verbatim>\<open>paths\<close> of \<^verbatim>\<open>read_sequences\<close>: a path-like value (a \<^verbatim>\<open>str\<close> or a
  \<^verbatim>\<open>Path\<close>, given by the string that names it), or a list of such values.
\<close>

datatype paths_arg = PathLike string | PathList "string list"

text \<open>
  The argument \<^verbatim>\<open>sequences\<close> of \<^verbatim>\<open>write_sequences\<close>: one \<^verbatim>\<open>SeqRecord\<close> object, an
  iterable of records, or something else altogether (a plain string, an object that is
  not iterable).
\<close>

datatype seqs_arg =
    OneRecord seq_record
  | Records "seq_record list"
  | PyStr string
  | PyObject

section \<open>The collaborators\<close>

text \<open>
  The libraries are not part of the repository, so they are parameters of the model.
  \<^item> \<open>Path\<close> is \<^verbatim>\<open>pathlib.Path\<close> on a path-like value: the string that names the
    resulting path object.
  \<^item> \<open>SeqIO_parse\<close> is \<^verbatim>\<open>Bio.SeqIO.parse(handle, format)\<close> as a function of the text
    behind the handle: the records the parser gives, in file order, and how it ends
    (\<open>None\<close>: the input is exhausted; \<open>Some e\<close>: it raises \<open>e\<close>). An unknown
    format tag is the result \<open>([], Some e)\<close>.
  \<^item> \<open>SeqIO_write\<close> is \<^verbatim>\<open>Bio.SeqIO.write(sequences, handle, format)\<close>: the text it
    has written to the handle when it returns or raises, and its result (the count it
    returns, or the exception).
\<close>

record collab =
  Path :: "string \<Rightarrow> string"
  SeqIO_parse :: "format \<Rightarrow> content \<Rightarrow> seq_record list \<times> py_error option"
  SeqIO_write :: "format \<Rightarrow> seqs_arg \<Rightarrow> content \<times> (py_error + nat)"

section \<open>The storage layer\<close>

text \<open>
  Modelled from the spec: the compression-transparent stream opener \<^verbatim>\<open>xopen\<close>
  (spec section 6, \<^verbatim>\<open>open(path, mode) -> byte stream\<close>), whose code is not in the
  repository. Compression is transparent, so a file is the text a reader sees.

  \<^item> \<open>locate\<close> is the name resolution of the operating system: the file a name
    denotes when it is opened in a mode, or the error the open raises (a missing
    directory, a name that treats a file as a directory, a permission).
  \<^item> \<open>disk\<close> is the text of the files that exist.
  \<^item> \<open>open_handles\<close> are the streams that are open, the newest first.
  \<^item> \<open>trace\<close> records every attempt to open, every write and every close.
\<close>

datatype mode = Rd | Wt

datatype event =
    Opened string mode nat
  | OpenFailed string mode py_error
  | Wrote nat content
  | Closed nat

record world =
  locate :: "mode \<Rightarrow> string \<Rightarrow> py_error + nat"
  disk :: "nat \<Rightarrow> content option"
  open_handles :: "nat list"
  next_handle :: nat
  trace :: "event list"

definition read_text :: "world \<Rightarrow> string \<Rightarrow> py_error + nat \<times> content" where
  "read_text w p =
     (case locate w Rd p of
        Inl e \<Rightarrow> Inl e
      | Inr l \<Rightarrow> (case disk w l of
                   None \<Rightarrow> Inl (FileNotFoundError p)
                 | Some t \<Rightarrow> Inr (l, t)))"

definition failed_open :: "world \<Rightarrow> string \<Rightarrow> mode \<Rightarrow> py_error \<Rightarrow> world" where
  "failed_open w p m e = w\<lparr>trace := trace w @ [OpenFailed p m e]\<rparr>"

definition acquire :: "world \<Rightarrow> string \<Rightarrow> mode \<Rightarrow> world" where
  "acquire w p m =
     w\<lparr>open_handles := next_handle w # open_handles w,
       next_handle := Suc (next_handle w),
       trace := trace w @ [Opened p m (next_handle w)]\<rparr>"

text \<open>
  \<^verbatim>\<open>xopen(path, "r")\<close> and \<^verbatim>\<open>xopen(path, "wt")\<close>. The result is the handle, the file
  behind it and the text a reader finds there. Opening for writing creates the file
  or empties it.
\<close>

fun xopen :: "world \<Rightarrow> string \<Rightarrow> mode \<Rightarrow> world \<times> (py_error + nat \<times> nat \<times> content)" where
  "xopen w p Rd =
     (case read_text w p of
        Inl e \<Rightarrow> (failed_open w p Rd e, Inl e)
      | Inr (l, t) \<Rightarrow> (acquire w p Rd, Inr (next_handle w, l, t)))"
| "xopen w p Wt =
     (case locate w Wt p of
        Inl e \<Rightarrow> (failed_open w p Wt e, Inl e)
      | Inr l \<Rightarrow> (acquire (w\<lparr>disk := (disk w)(l \<mapsto> [])\<rparr>) p Wt, Inr (next_handle w, l, [])))"

definition write_handle :: "world \<Rightarrow> nat \<Rightarrow> nat \<Rightarrow> content \<Rightarrow> world" where
  "write_handle w h l t =
     w\<lparr>disk := (disk w)(l \<mapsto> (case disk w l of None \<Rightarrow> t | Some old \<Rightarrow> old @ t)),
       trace := trace w @ [Wrote h t]\<rparr>"

definition close_handle :: "world \<Rightarrow> nat \<Rightarrow> world" where
  "close_handle w h =
     w\<lparr>open_handles := remove1 h (open_handles w), trace := trace w @ [Closed h]\<rparr>"

section \<open>read_sequences\<close>

text \<open>
  \<^verbatim>\<open>read_sequences\<close> is a generator function. Calling it runs none of its body and
  returns a generator object; the body runs inside \<^verbatim>\<open>next\<close>, from one \<^verbatim>\<open>yield\<close> to
  the next. The generator is
  \<^item> \<open>Created\<close>: returned by the call, not started;
  \<^item> \<open>Suspended h rs fin ps fmt\<close>: stopped at the \<^verbatim>\<open>yield\<close>, inside the \<^verbatim>\<open>with\<close>
    block that holds handle \<open>h\<close>, with the records \<open>rs\<close> the parser has still to
    give, the way \<open>fin\<close> the parser ends, and the paths \<open>ps\<close> still to visit;
  \<^item> \<open>Finished\<close>: the body has returned or raised.
\<close>

datatype gen =
    Created paths_arg format
  | Suspended nat "seq_record list" "py_error option" "string list" format
  | Finished

datatype step = Yield seq_record | Raise py_error | StopIteration

text \<open>
  Lines 31 to 40: \<^verbatim>\<open>paths = [Path(paths)]\<close>, unless \<^verbatim>\<open>Path\<close> raises \<^verbatim>\<open>TypeError\<close>, as
  it does on a list, which is then kept as it is.
\<close>

fun path_list :: "collab \<Rightarrow> paths_arg \<Rightarrow> string list" where
  "path_list E (PathLike p) = [Path E p]"
| "path_list E (PathList ps) = ps"

text \<open>
  Lines 42 to 50, run from the head of the \<^verbatim>\<open>for\<close> loop until the next \<^verbatim>\<open>yield\<close>,
  exception or return. Leaving the \<^verbatim>\<open>with\<close> block closes the handle, whether the
  parser is exhausted or raises.
\<close>

fun for_paths :: "collab \<Rightarrow> format \<Rightarrow> world \<Rightarrow> string list \<Rightarrow> world \<times> gen \<times> step" where
  "for_paths E fmt w [] = (w, Finished, StopIteration)"
| "for_paths E fmt w (p # ps) =
     (case xopen w p Rd of
        (w1, Inl e) \<Rightarrow> (w1, Finished, Raise e)
      | (w1, Inr (h, l, t)) \<Rightarrow>
          (case SeqIO_parse E fmt t of
             (r # rs, fin) \<Rightarrow> (w1, Suspended h rs fin ps fmt, Yield r)
           | ([], Some e) \<Rightarrow> (close_handle w1 h, Finished, Raise e)
           | ([], None) \<Rightarrow> for_paths E fmt (close_handle w1 h) ps))"

definition read_sequences :: "paths_arg \<Rightarrow> format \<Rightarrow> gen" where
  "read_sequences paths fmt = Created paths fmt"

fun gen_next :: "collab \<Rightarrow> world \<Rightarrow> gen \<Rightarrow> world \<times> gen \<times> step" where
  "gen_next E w (Created paths fmt) = for_paths E fmt w (path_list E paths)"
| "gen_next E w (Suspended h (r # rs) fin ps fmt) = (w, Suspended h rs fin ps fmt, Yield r)"
| "gen_next E w (Suspended h [] (Some e) ps fmt) = (close_handle w h, Finished, Raise e)"
| "gen_next E w (Suspended h [] None ps fmt) = for_paths E fmt (close_handle w h) ps"
| "gen_next E w Finished = (w, Finished, StopIteration)"

text \<open>
  \<^verbatim>\<open>gen.close()\<close>, which is also what abandoning the generator comes to: the
  \<^verbatim>\<open>GeneratorExit\<close> raised at the \<^verbatim>\<open>yield\<close> leaves the \<^verbatim>\<open>with\<close> block.
\<close>

fun gen_close :: "world \<Rightarrow> gen \<Rightarrow> world \<times> gen" where
  "gen_close w (Suspended h rs fin ps fmt) = (close_handle w h, Finished)"
| "gen_close w g = (w, Finished)"

subsection \<open>Consuming the generator\<close>

text \<open>
  The records a path holds for the parser, as the text on the disk and the format tag
  decide: none when the path cannot be opened. A path is clean when it opens and the
  parser reads it to its end without raising.
\<close>

definition records_at :: "collab \<Rightarrow> format \<Rightarrow> world \<Rightarrow> string \<Rightarrow> seq_record list" where
  "records_at E fmt w p =
     (case read_text w p of Inl e \<Rightarrow> [] | Inr (l, t) \<Rightarrow> fst (SeqIO_parse E fmt t))"

definition clean_path :: "collab \<Rightarrow> format \<Rightarrow> world \<Rightarrow> string \<Rightarrow> bool" where
  "clean_path E fmt w p =
     (case read_text w p of Inl e \<Rightarrow> False | Inr (l, t) \<Rightarrow> snd (SeqIO_parse E fmt t) = None)"

text \<open>
  An upper bound on the number of \<^verbatim>\<open>next\<close> calls a generator can still answer with a
  record: every file is finite, so is every list of paths.
\<close>

definition pending :: "collab \<Rightarrow> format \<Rightarrow> world \<Rightarrow> string list \<Rightarrow> nat" where
  "pending E fmt w ps = sum_list (map (\<lambda>p. Suc (length (records_at E fmt w p))) ps)"

fun gen_size :: "collab \<Rightarrow> world \<Rightarrow> gen \<Rightarrow> nat" where
  "gen_size E w (Created paths fmt) = Suc (pending E fmt w (path_list E paths))"
| "gen_size E w (Suspended h rs fin ps fmt) = Suc (length rs + pending E fmt w ps)"
| "gen_size E w Finished = 0"

lemma read_text_cong:
  "locate w' = locate w \<Longrightarrow> disk w' = disk w \<Longrightarrow> read_text w' p = read_text w p"
  by (simp add: read_text_def split: sum.splits option.splits)

lemma records_at_cong:
  "locate w' = locate w \<Longrightarrow> disk w' = disk w \<Longrightarrow> records_at E fmt w' p = records_at E fmt w p"
  using read_text_cong [of w' w p] by (simp add: records_at_def)

lemma clean_path_cong:
  "locate w' = locate w \<Longrightarrow> disk w' = disk w \<Longrightarrow> clean_path E fmt w' p = clean_path E fmt w p"
  using read_text_cong [of w' w p] by (simp add: clean_path_def)

lemma pending_cong:
  "locate w' = locate w \<Longrightarrow> disk w' = disk w \<Longrightarrow> pending E fmt w' ps = pending E fmt w ps"
  using records_at_cong [of w' w E fmt] by (simp add: pending_def)

lemma pending_Nil [simp]: "pending E fmt w [] = 0"
  by (simp add: pending_def)

lemma pending_Cons [simp]:
  "pending E fmt w (p # ps) = Suc (length (records_at E fmt w p)) + pending E fmt w ps"
  by (simp add: pending_def)

lemma close_handle_view [simp]:
  "locate (close_handle w h) = locate w" "disk (close_handle w h) = disk w"
  by (simp_all add: close_handle_def)

lemma xopen_Rd_view:
  "xopen w p Rd = (w1, res) \<Longrightarrow> locate w1 = locate w \<and> disk w1 = disk w"
  by (auto simp: failed_open_def acquire_def split: sum.splits prod.splits)

lemma xopen_Rd_text:
  "xopen w p Rd = (w1, Inr (h, l, t)) \<Longrightarrow> read_text w p = Inr (l, t)"
  by (auto split: sum.splits prod.splits)

lemma for_paths_view:
  "for_paths E fmt w ps = (w', g', out) \<Longrightarrow> locate w' = locate w \<and> disk w' = disk w"
proof (induction ps arbitrary: w)
  case Nil
  then show ?case by simp
next
  case (Cons p ps)
  obtain w1 res where x: "xopen w p Rd = (w1, res)" by (cases "xopen w p Rd")
  note v = xopen_Rd_view [OF x]
  show ?case
  proof (cases res)
    case (Inl e)
    with Cons.prems x v show ?thesis by auto
  next
    case (Inr hlt)
    obtain h l t where hlt: "hlt = (h, l, t)" by (cases hlt)
    obtain rs fin where pr: "SeqIO_parse E fmt t = (rs, fin)" by (cases "SeqIO_parse E fmt t")
    show ?thesis
    proof (cases rs)
      case (Cons r rs')
      with Cons.prems x v Inr hlt pr show ?thesis by auto
    next
      case Nil
      show ?thesis
      proof (cases fin)
        case None
        with Cons.prems x Inr hlt pr Nil
        have "for_paths E fmt (close_handle w1 h) ps = (w', g', out)" by simp
        from Cons.IH [OF this] v show ?thesis by simp
      next
        case (Some e)
        with Cons.prems x v Inr hlt pr Nil show ?thesis by auto
      qed
    qed
  qed
qed

lemma for_paths_size:
  "for_paths E fmt w ps = (w', g', Yield r) \<Longrightarrow> gen_size E w' g' < pending E fmt w ps"
proof (induction ps arbitrary: w)
  case Nil
  then show ?case by simp
next
  case (Cons p ps)
  obtain w1 res where x: "xopen w p Rd = (w1, res)" by (cases "xopen w p Rd")
  note v = xopen_Rd_view [OF x]
  show ?case
  proof (cases res)
    case (Inl e)
    with Cons.prems x show ?thesis by auto
  next
    case (Inr hlt)
    obtain h l t where hlt: "hlt = (h, l, t)" by (cases hlt)
    obtain rs fin where pr: "SeqIO_parse E fmt t = (rs, fin)" by (cases "SeqIO_parse E fmt t")
    from x Inr hlt have rt: "read_text w p = Inr (l, t)" by (simp add: xopen_Rd_text)
    show ?thesis
    proof (cases rs)
      case (Cons r' rs')
      with Cons.prems x Inr hlt pr
      have "w' = w1" "g' = Suspended h rs' fin ps fmt" by auto
      moreover from v have "pending E fmt w1 ps = pending E fmt w ps"
        by (intro pending_cong) simp_all
      moreover from rt pr Cons have "length (records_at E fmt w p) = Suc (length rs')"
        by (simp add: records_at_def)
      ultimately show ?thesis by simp
    next
      case Nil
      show ?thesis
      proof (cases fin)
        case None
        with Cons.prems x Inr hlt pr Nil
        have "for_paths E fmt (close_handle w1 h) ps = (w', g', Yield r)" by simp
        from Cons.IH [OF this] v pending_cong [of "close_handle w1 h" w E fmt ps]
        have "gen_size E w' g' < pending E fmt w ps"
          by simp
        then show ?thesis by simp
      next
        case (Some e)
        with Cons.prems x Inr hlt pr Nil show ?thesis by auto
      qed
    qed
  qed
qed

lemma gen_next_size:
  "gen_next E w g = (w', g', Yield r) \<Longrightarrow> gen_size E w' g' < gen_size E w g"
proof (induction E w g rule: gen_next.induct)
  case (1 E w paths fmt)
  then show ?case using for_paths_size [of E fmt w "path_list E paths" w' g' r] by simp
next
  case (2 E w h r rs fin ps fmt)
  then show ?case by auto
next
  case (3 E w h e ps fmt)
  then show ?case by simp
next
  case (4 E w h ps fmt)
  then show ?case
    using for_paths_size [of E fmt "close_handle w h" ps w' g' r]
      pending_cong [of "close_handle w h" w E fmt ps]
    by simp
next
  case (5 E w)
  then show ?case by simp
qed

text \<open>
  \<^verbatim>\<open>list(gen)\<close>: calling \<^verbatim>\<open>next\<close> until the generator stops or raises. The result is
  the world afterwards, the records received, and the exception that ended the
  iteration, if one did.
\<close>

function drain :: "collab \<Rightarrow> world \<Rightarrow> gen \<Rightarrow> world \<times> seq_record list \<times> py_error option" where
  "drain E w g =
     (case gen_next E w g of
        (w', g', Yield r) \<Rightarrow> (case drain E w' g' of (w'', rs, fin) \<Rightarrow> (w'', r # rs, fin))
      | (w', g', Raise e) \<Rightarrow> (w', [], Some e)
      | (w', g', StopIteration) \<Rightarrow> (w', [], None))"
  by pat_completeness auto
termination
proof (relation "measure (\<lambda>(E, w, g). gen_size E w g)")
  show "wf (measure (\<lambda>(E, w, g). gen_size E w g))" by simp
next
  fix E w g x y z xa r
  assume "(x, y) = gen_next E w g" "(z, xa) = y" "xa = Yield r"
  then have "gen_next E w g = (x, z, Yield r)" by simp
  then show "((E, x, z), E, w, g) \<in> measure (\<lambda>(E, w, g). gen_size E w g)"
    using gen_next_size [of E w g x z r] by simp
qed

declare drain.simps [simp del]

text \<open>
  A caller that takes \<open>n\<close> items with \<^verbatim>\<open>next\<close> and then abandons the generator.
\<close>

fun advance :: "collab \<Rightarrow> nat \<Rightarrow> world \<Rightarrow> gen \<Rightarrow> world \<times> gen" where
  "advance E 0 w g = (w, g)"
| "advance E (Suc n) w g = (case gen_next E w g of (w', g', out) \<Rightarrow> advance E n w' g')"

definition abandon_after :: "collab \<Rightarrow> nat \<Rightarrow> world \<Rightarrow> gen \<Rightarrow> world \<times> gen" where
  "abandon_after E n w g = (case advance E n w g of (w', g') \<Rightarrow> gen_close w' g')"

text \<open>
  The answers of the first \<open>n\<close> calls of \<^verbatim>\<open>next\<close> on a generator, in order.
\<close>

fun outcomes :: "collab \<Rightarrow> nat \<Rightarrow> world \<Rightarrow> gen \<Rightarrow> step list" where
  "outcomes E 0 w g = []"
| "outcomes E (Suc n) w g = (case gen_next E w g of (w', g', out) \<Rightarrow> out # outcomes E n w' g')"

text \<open>The paths of the attempts to open that a trace records, in their order.\<close>

fun attempts :: "event list \<Rightarrow> string list" where
  "attempts [] = []"
| "attempts (Opened p m h # es) = p # attempts es"
| "attempts (OpenFailed p m e # es) = p # attempts es"
| "attempts (Wrote h t # es) = attempts es"
| "attempts (Closed h # es) = attempts es"

section \<open>write_sequences\<close>

definition isinstance_SeqRecord :: "seqs_arg \<Rightarrow> bool" where
  "isinstance_SeqRecord s = (case s of OneRecord r \<Rightarrow> True | _ \<Rightarrow> False)"

definition guard_error :: py_error where
  "guard_error = TypeError ''Input sequences must be an iterable of BioPython SeqRecord objects; individual SeqRecord objects are not supported.''"

definition write_sequences ::
  "collab \<Rightarrow> world \<Rightarrow> seqs_arg \<Rightarrow> string \<Rightarrow> format \<Rightarrow> world \<times> (py_error + nat)" where
  "write_sequences E w sequences path fmt =
     (if isinstance_SeqRecord sequences then (w, Inl guard_error)
      else
        (case xopen w path Wt of
           (w1, Inl e) \<Rightarrow> (w1, Inl e)
         | (w1, Inr (h, l, t)) \<Rightarrow>
             (case SeqIO_write E fmt sequences of
                (written, sequences_written) \<Rightarrow>
                  (close_handle (write_handle w1 h l written) h, sequences_written))))"

section \<open>Auxiliary notions for the statements\<close>

definition is_TypeError :: "py_error \<Rightarrow> bool" where
  "is_TypeError e = (case e of TypeError m \<Rightarrow> True | _ \<Rightarrow> False)"

text \<open>The world after a file has been opened for reading and closed again.\<close>

definition after_read :: "world \<Rightarrow> string \<Rightarrow> world" where
  "after_read w p = close_handle (acquire w p Rd) (next_handle w)"

text \<open>
  The world after \<open>t\<close> has been written to the file \<open>l\<close> through a stream opened at
  \<open>path\<close>, and the stream closed.
\<close>

definition after_write :: "world \<Rightarrow> string \<Rightarrow> nat \<Rightarrow> content \<Rightarrow> world" where
  "after_write w path l t =
     close_handle
       (write_handle (acquire (w\<lparr>disk := (disk w)(l \<mapsto> [])\<rparr>) path Wt) (next_handle w) l t)
       (next_handle w)"

text \<open>
  Modelled from the spec: the contract of the serializer, which is not in the
  repository (spec section 6, \<^verbatim>\<open>serialize(records, stream, format_tag) -> count\<close>; section
  4.2, the count of records serialized): when it succeeds on a collection of records,
  the count it returns is the number of records it was given.
\<close>

definition counts_records :: "collab \<Rightarrow> bool" where
  "counts_records E =
     (\<forall>fmt rs t n. SeqIO_write E fmt (Records rs) = (t, Inr n) \<longrightarrow> n = length rs)"

text \<open>
  Records are well formed for a format when the codec serializes them and parses the
  text it wrote back into as many records, without raising.
\<close>

definition roundtrips :: "collab \<Rightarrow> format \<Rightarrow> seq_record list \<Rightarrow> bool" where
  "roundtrips E fmt rs =
     (case SeqIO_write E fmt (Records rs) of
        (t, Inl e) \<Rightarrow> False
      | (t, Inr n) \<Rightarrow>
          (case SeqIO_parse E fmt t of
             (rs', Some e) \<Rightarrow> False
           | (rs', None) \<Rightarrow> length rs' = length rs))"

text \<open>The handle a generator holds: the one of the \<^verbatim>\<open>with\<close> block it is suspended in.\<close>

fun held :: "gen \<Rightarrow> nat list" where
  "held (Suspended h rs fin ps fmt) = [h]"
| "held (Created paths fmt) = []"
| "held Finished = []"

section \<open>Sample collaborators and a sample world\<close>

text \<open>
  Concrete stand-ins for the libraries, used to run the model on explicit inputs: a
  path cast that collapses slashes and single dots as \<^verbatim>\<open>pathlib\<close> does on POSIX
  (\<^verbatim>\<open>Path("seqs.fasta/")\<close> is \<^verbatim>\<open>PosixPath('seqs.fasta')\<close>, \<^verbatim>\<open>Path("")\<close> is
  \<^verbatim>\<open>PosixPath('.')\<close>), and a codec that knows the single format \<^verbatim>\<open>fasta\<close>, written as
  a header line and a sequence line per record. As \<^verbatim>\<open>Bio.SeqIO.write\<close> does, the
  sample serializer takes a single record for a list of one.
\<close>

fun split_on :: "char \<Rightarrow> string \<Rightarrow> string list" where
  "split_on c [] = [[]]"
| "split_on c (x # xs) =
     (if x = c then [] # split_on c xs
      else (case split_on c xs of [] \<Rightarrow> [[x]] | y # ys \<Rightarrow> (x # y) # ys))"

fun join_with :: "char \<Rightarrow> string list \<Rightarrow> string" where
  "join_with c [] = []"
| "join_with c [x] = x"
| "join_with c (x # y # ys) = x @ c # join_with c (y # ys)"

definition posix_Path :: "string \<Rightarrow> string" where
  "posix_Path s =
     (let parts = filter (\<lambda>c. c \<noteq> [] \<and> c \<noteq> ''.'') (split_on CHR ''/'' s);
          root = (if take 1 s = ''/''
                  then (if take 2 s = ''//'' \<and> take 3 s \<noteq> ''///'' then ''//'' else ''/'')
                  else [])
      in if root = [] \<and> parts = [] then ''.'' else root @ join_with CHR ''/'' parts)"

definition fasta_text :: "seq_record \<Rightarrow> content" where
  "fasta_text r = CHR ''>'' # rec_id r @ CHR 0x0A # rec_seq r @ [CHR 0x0A]"

fun fasta_records :: "seq_record option \<Rightarrow> string list \<Rightarrow> seq_record list" where
  "fasta_records cur [] = (case cur of None \<Rightarrow> [] | Some r \<Rightarrow> [r])"
| "fasta_records cur (ln # lns) =
     (case ln of
        c # name \<Rightarrow>
          (if c = CHR ''>''
           then (case cur of None \<Rightarrow> [] | Some r \<Rightarrow> [r])
                @ fasta_records (Some (SeqRecord name [])) lns
           else fasta_records (map_option (\<lambda>r. SeqRecord (rec_id r) (rec_seq r @ ln)) cur) lns)
      | [] \<Rightarrow> fasta_records cur lns)"

definition sample_parse :: "format \<Rightarrow> content \<Rightarrow> seq_record list \<times> py_error option" where
  "sample_parse fmt t =
     (if fmt = ''fasta'' then (fasta_records None (split_on (CHR 0x0A) t), None)
      else ([], Some (ValueError fmt)))"

definition sample_write :: "format \<Rightarrow> seqs_arg \<Rightarrow> content \<times> (py_error + nat)" where
  "sample_write fmt s =
     (if fmt \<noteq> ''fasta'' then ([], Inl (ValueError fmt))
      else (case s of
              OneRecord r \<Rightarrow> (fasta_text r, Inr 1)
            | Records rs \<Rightarrow> (concat (map fasta_text rs), Inr (length rs))
            | PyStr x \<Rightarrow> ([], Inl (AttributeError ''id''))
            | PyObject \<Rightarrow> ([], Inl (TypeError ''object is not iterable''))))"

definition sample_libs :: collab where
  "sample_libs = \<lparr>Path = posix_Path, SeqIO_parse = sample_parse, SeqIO_write = sample_write\<rparr>"

text \<open>
  A directory with two sequence files, an output file that already has content, a
  name with no file behind it, and a directory that cannot be written. A name that
  puts a slash after a file does not resolve.
\<close>

definition sample_locate :: "mode \<Rightarrow> string \<Rightarrow> py_error + nat" where
  "sample_locate m p =
     (if p = ''a.fasta'' then Inr 0
      else if p = ''b.fasta'' then Inr 1
      else if p = ''out.fasta.gz'' then Inr 2
      else if p = ''missing.fasta'' then Inr 3
      else if p = ''a.fasta/'' then Inl (NotADirectoryError p)
      else if p = ''locked/out.fasta'' \<and> m = Wt then Inl (PermissionError p)
      else Inl (FileNotFoundError p))"

definition sample_disk :: "nat \<Rightarrow> content option" where
  "sample_disk l =
     (if l = 0 then Some (fasta_text (SeqRecord ''SEQ_1'' ''ACGT'') @ fasta_text (SeqRecord ''SEQ_2'' ''GGCC''))
      else if l = 1 then Some (fasta_text (SeqRecord ''SEQ_3'' ''TTAA''))
      else if l = 2 then Some ''stale''
      else None)"

definition sample_world :: world where
  "sample_world =
     \<lparr>locate = sample_locate, disk = sample_disk, open_handles = [], next_handle = 0, trace = []\<rparr>"

section \<open>The generator, step by step and as a whole\<close>

lemma drain_cong_next:
  "gen_next E w g = gen_next E w2 g2 \<Longrightarrow> drain E w g = drain E w2 g2"
  by (simp add: drain.simps [of E w g] drain.simps [of E w2 g2])

lemma drain_Finished [simp]: "drain E w Finished = (w, [], None)"
  by (subst drain.simps) simp

lemma drain_Nil [simp]: "drain E w (Created (PathList []) fmt) = (w, [], None)"
  by (subst drain.simps) simp

lemma drain_PathLike:
  "drain E w (Created (PathLike p) fmt) = drain E w (Created (PathList [Path E p]) fmt)"
  by (rule drain_cong_next) simp

lemma drain_Suspended:
  "drain E w (Suspended h rs fin ps fmt) =
     (case fin of
        Some e \<Rightarrow> (close_handle w h, rs, Some e)
      | None \<Rightarrow>
          (case drain E (close_handle w h) (Created (PathList ps) fmt) of
             (w', rs', fin') \<Rightarrow> (w', rs @ rs', fin')))"
proof (induction rs)
  case Nil
  show ?case
  proof (cases fin)
    case None
    have "drain E w (Suspended h [] None ps fmt) =
          drain E (close_handle w h) (Created (PathList ps) fmt)"
      by (rule drain_cong_next) simp
    with None show ?thesis by (simp split: prod.splits)
  next
    case (Some e)
    then show ?thesis by (subst drain.simps) simp
  qed
next
  case (Cons r rs)
  show ?case
    by (subst drain.simps) (simp add: Cons split: option.splits prod.splits)
qed

lemma drain_Cons:
  "drain E w (Created (PathList (p # ps)) fmt) =
     (case read_text w p of
        Inl e \<Rightarrow> (failed_open w p Rd e, [], Some e)
      | Inr (l, t) \<Rightarrow>
          (case SeqIO_parse E fmt t of
             (rs, Some e) \<Rightarrow> (after_read w p, rs, Some e)
           | (rs, None) \<Rightarrow>
               (case drain E (after_read w p) (Created (PathList ps) fmt) of
                  (w', rs', fin') \<Rightarrow> (w', rs @ rs', fin'))))"
proof (cases "read_text w p")
  case (Inl e)
  then show ?thesis
    by (subst drain.simps) simp
next
  case (Inr lt)
  obtain l t where lt: "lt = (l, t)" by (cases lt)
  obtain rs fin where pr: "SeqIO_parse E fmt t = (rs, fin)" by (cases "SeqIO_parse E fmt t")
  show ?thesis
  proof (cases rs)
    case Nil
    show ?thesis
    proof (cases fin)
      case None
      have "drain E w (Created (PathList (p # ps)) fmt) =
            drain E (after_read w p) (Created (PathList ps) fmt)"
        by (rule drain_cong_next) (simp add: Inr lt pr Nil None after_read_def)
      with Inr lt pr Nil None show ?thesis by (simp split: prod.splits)
    next
      case (Some e)
      with Inr lt pr Nil show ?thesis
        by (subst drain.simps) (simp add: after_read_def)
    qed
  next
    case (Cons r rs')
    with Inr lt pr show ?thesis
      by (subst drain.simps)
        (simp add: drain_Suspended after_read_def split: option.splits prod.splits)
  qed
qed

section \<open>The single-record guard of write_sequences\<close>

text \<open>
  C1. Given a single sequence record, not wrapped in a collection, \<^verbatim>\<open>write_sequences\<close>
  raises a type error before anything else happens: the world it leaves is the world
  it found, with no stream opened, no file created or emptied and no event recorded.
\<close>

theorem write_sequences_single_record_rejected:
  "write_sequences E w (OneRecord r) path fmt = (w, Inl guard_error) \<and> is_TypeError guard_error"
  by (simp add: write_sequences_def isinstance_SeqRecord_def guard_error_def is_TypeError_def)

theorem write_sequences_single_record_rejected_witness:
  "write_sequences sample_libs sample_world (OneRecord (SeqRecord ''SEQ_1'' ''ACGT''))
     ''out.fasta.gz'' ''fasta'' = (sample_world, Inl guard_error)"
  using write_sequences_single_record_rejected
    [of sample_libs sample_world "SeqRecord ''SEQ_1'' ''ACGT''" "''out.fasta.gz''" "''fasta''"]
  by simp

section \<open>Reading several paths\<close>

lemma after_read_view [simp]:
  "locate (after_read w p) = locate w"
  "disk (after_read w p) = disk w"
  "open_handles (after_read w p) = open_handles w"
  "trace (after_read w p) = trace w @ [Opened p Rd (next_handle w), Closed (next_handle w)]"
  by (simp_all add: after_read_def close_handle_def acquire_def)

lemma failed_open_view [simp]:
  "locate (failed_open w p m e) = locate w"
  "disk (failed_open w p m e) = disk w"
  "open_handles (failed_open w p m e) = open_handles w"
  "trace (failed_open w p m e) = trace w @ [OpenFailed p m e]"
  by (simp_all add: failed_open_def)

lemma attempts_append [simp]: "attempts (es @ fs) = attempts es @ attempts fs"
  by (induction es rule: attempts.induct) simp_all

lemma foldl_after_read_view [simp]:
  "locate (foldl after_read w ps) = locate w"
  "disk (foldl after_read w ps) = disk w"
  "open_handles (foldl after_read w ps) = open_handles w"
  "attempts (trace (foldl after_read w ps)) = attempts (trace w) @ ps"
  by (induction ps arbitrary: w) simp_all

lemma clean_pathD:
  "clean_path E fmt w p \<Longrightarrow>
     \<exists>l t. read_text w p = Inr (l, t) \<and> SeqIO_parse E fmt t = (records_at E fmt w p, None)"
  by (auto simp: clean_path_def records_at_def prod_eq_iff split: sum.splits prod.splits)

lemma drain_clean_prefix:
  "list_all (clean_path E fmt w) good \<Longrightarrow>
     drain E w (Created (PathList (good @ qs)) fmt) =
       (case drain E (foldl after_read w good) (Created (PathList qs) fmt) of
          (w', rs', fin) \<Rightarrow> (w', concat (map (records_at E fmt w) good) @ rs', fin))"
proof (induction good arbitrary: w)
  case Nil
  show ?case by (simp split: prod.splits)
next
  case (Cons p good)
  from Cons.prems obtain l t where
    rt: "read_text w p = Inr (l, t)" and pr: "SeqIO_parse E fmt t = (records_at E fmt w p, None)"
    using clean_pathD [of E fmt w p] by auto
  have same: "clean_path E fmt (after_read w p) = clean_path E fmt w"
    "records_at E fmt (after_read w p) = records_at E fmt w"
    using clean_path_cong [of "after_read w p" w E fmt] records_at_cong [of "after_read w p" w E fmt]
    by auto
  from Cons.prems have "list_all (clean_path E fmt (after_read w p)) good"
    by (simp add: same)
  from Cons.IH [OF this] rt pr show ?case
    by (simp add: drain_Cons same split: prod.splits)
qed

lemma drain_clean:
  "list_all (clean_path E fmt w) ps \<Longrightarrow>
     drain E w (Created (PathList ps) fmt) =
       (foldl after_read w ps, concat (map (records_at E fmt w) ps), None)"
  using drain_clean_prefix [of E fmt w ps "[]"] by simp

text \<open>
  C3. Given a list of paths that all open and all parse to the end, the records
  \<^verbatim>\<open>read_sequences\<close> yields are the concatenation of the records of each path: those
  of a path, in file order, come before those of the next path, and their number
  is the sum of the numbers of records of the paths.
\<close>

theorem read_sequences_concatenates:
  assumes "list_all (clean_path E fmt w) ps"
  shows "snd (drain E w (read_sequences (PathList ps) fmt)) =
           (concat (map (records_at E fmt w) ps), None)
         \<and> length (fst (snd (drain E w (read_sequences (PathList ps) fmt)))) =
           sum_list (map (\<lambda>p. length (records_at E fmt w p)) ps)"
  using drain_clean [OF assms] by (simp add: read_sequences_def length_concat comp_def)

lemma sample_records_at:
  "records_at sample_libs ''fasta'' sample_world ''a.fasta'' = [SeqRecord ''SEQ_1'' ''ACGT'', SeqRecord ''SEQ_2'' ''GGCC'']"
  "records_at sample_libs ''fasta'' sample_world ''b.fasta'' = [SeqRecord ''SEQ_3'' ''TTAA'']"
  by (simp_all add: records_at_def read_text_def sample_world_def sample_locate_def sample_disk_def
      sample_libs_def sample_parse_def fasta_text_def)

lemma sample_clean:
  "clean_path sample_libs ''fasta'' sample_world ''a.fasta''"
  "clean_path sample_libs ''fasta'' sample_world ''b.fasta''"
  by (simp_all add: clean_path_def read_text_def sample_world_def sample_locate_def sample_disk_def
      sample_libs_def sample_parse_def)

theorem read_sequences_concatenates_witness:
  "list_all (clean_path sample_libs ''fasta'' sample_world) [''a.fasta'', ''b.fasta'', ''a.fasta'']
   \<and> snd (drain sample_libs sample_world
            (read_sequences (PathList [''a.fasta'', ''b.fasta'', ''a.fasta'']) ''fasta'')) =
       ([SeqRecord ''SEQ_1'' ''ACGT'', SeqRecord ''SEQ_2'' ''GGCC'', SeqRecord ''SEQ_3'' ''TTAA'',
         SeqRecord ''SEQ_1'' ''ACGT'', SeqRecord ''SEQ_2'' ''GGCC''], None)
   \<and> length (fst (snd (drain sample_libs sample_world
            (read_sequences (PathList [''a.fasta'', ''b.fasta'', ''a.fasta'']) ''fasta'')))) = 2 + 1 + 2"
proof -
  have c: "list_all (clean_path sample_libs ''fasta'' sample_world) [''a.fasta'', ''b.fasta'', ''a.fasta'']"
    by (simp add: sample_clean)
  from read_sequences_concatenates [OF c] c show ?thesis
    by (simp add: sample_records_at)
qed

lemma read_text_foldl_after_read [simp]:
  "read_text (foldl after_read w ps) p = read_text w p"
  by (rule read_text_cong) simp_all

lemma drain_attempts_take:
  "\<exists>k. attempts (trace (fst (drain E w (Created (PathList ps) fmt)))) =
         attempts (trace w) @ take k ps"
proof (induction ps arbitrary: w)
  case Nil
  show ?case by simp
next
  case (Cons p ps)
  show ?case
  proof (cases "read_text w p")
    case (Inl e)
    then have "attempts (trace (fst (drain E w (Created (PathList (p # ps)) fmt)))) =
               attempts (trace w) @ take 1 (p # ps)"
      by (simp add: drain_Cons)
    then show ?thesis by blast
  next
    case (Inr lt)
    obtain l t where lt: "lt = (l, t)" by (cases lt)
    obtain rs fin where pr: "SeqIO_parse E fmt t = (rs, fin)" by (cases "SeqIO_parse E fmt t")
    show ?thesis
    proof (cases fin)
      case (Some e)
      with Inr lt pr
      have "attempts (trace (fst (drain E w (Created (PathList (p # ps)) fmt)))) =
            attempts (trace w) @ take 1 (p # ps)"
        by (simp add: drain_Cons)
      then show ?thesis by blast
    next
      case None
      from Cons.IH [of "after_read w p"] obtain k where
        k: "attempts (trace (fst (drain E (after_read w p) (Created (PathList ps) fmt)))) =
            attempts (trace (after_read w p)) @ take k ps"
        by blast
      with Inr lt pr None
      have "attempts (trace (fst (drain E w (Created (PathList (p # ps)) fmt)))) =
            attempts (trace w) @ take (Suc k) (p # ps)"
        by (auto simp: drain_Cons split: prod.splits)
      then show ?thesis by blast
    qed
  qed
qed

lemma drain_open_error:
  assumes "list_all (clean_path E fmt w) good" and "read_text w p = Inl e"
  shows "drain E w (Created (PathList (good @ p # rest)) fmt) =
           (failed_open (foldl after_read w good) p Rd e,
            concat (map (records_at E fmt w) good), Some e)"
  using assms by (simp add: drain_clean_prefix drain_Cons)

lemma drain_parse_error:
  assumes "list_all (clean_path E fmt w) good" and "read_text w p = Inr (l, t)"
    and "SeqIO_parse E fmt t = (rs, Some e)"
  shows "drain E w (Created (PathList (good @ p # rest)) fmt) =
           (after_read (foldl after_read w good) p,
            concat (map (records_at E fmt w) good) @ rs, Some e)"
  using assms by (simp add: drain_clean_prefix drain_Cons)

lemma sample_read_text:
  "read_text sample_world ''a.fasta'' =
     Inr (0, fasta_text (SeqRecord ''SEQ_1'' ''ACGT'') @ fasta_text (SeqRecord ''SEQ_2'' ''GGCC''))"
  "read_text sample_world ''b.fasta'' = Inr (1, fasta_text (SeqRecord ''SEQ_3'' ''TTAA''))"
  "read_text sample_world ''a.fasta/'' = Inl (NotADirectoryError ''a.fasta/'')"
  "read_text sample_world ''missing.fasta'' = Inl (FileNotFoundError ''missing.fasta'')"
  by (simp_all add: read_text_def sample_world_def sample_locate_def sample_disk_def)

lemma sample_parse_a:
  "sample_parse ''fasta''
     (fasta_text (SeqRecord ''SEQ_1'' ''ACGT'') @ fasta_text (SeqRecord ''SEQ_2'' ''GGCC'')) =
     ([SeqRecord ''SEQ_1'' ''ACGT'', SeqRecord ''SEQ_2'' ''GGCC''], None)"
  by (simp add: sample_parse_def fasta_text_def)

lemma sample_Path_slash: "Path sample_libs ''a.fasta/'' = ''a.fasta''"
  by (simp add: sample_libs_def posix_Path_def)

section \<open>A single path and a list of paths\<close>

text \<open>
  C2 (as amended). Given a single path-like value \<open>p\<close>, \<^verbatim>\<open>read_sequences\<close> behaves
  exactly as on the one-element list \<^verbatim>\<open>[Path(p)]\<close>, the cast of \<open>p\<close> by \<^verbatim>\<open>pathlib\<close>:
  the first \<^verbatim>\<open>next\<close> is the same and so is the whole stream. Given a list of paths,
  it attempts to open them in the order of the list, skipping and merging none: the
  attempts are an initial segment of the list (the iteration stops at the first
  error), and the whole list when every path opens and parses to the end.
\<close>

theorem read_sequences_single_path_cast:
  "gen_next E w (read_sequences (PathLike p) fmt) =
     gen_next E w (read_sequences (PathList [Path E p]) fmt)
   \<and> drain E w (read_sequences (PathLike p) fmt) =
     drain E w (read_sequences (PathList [Path E p]) fmt)
   \<and> (\<exists>k. attempts (trace (fst (drain E w (read_sequences (PathList ps) fmt)))) =
          attempts (trace w) @ take k ps)
   \<and> (list_all (clean_path E fmt w) ps \<longrightarrow>
        attempts (trace (fst (drain E w (read_sequences (PathList ps) fmt)))) =
          attempts (trace w) @ ps)"
  using drain_attempts_take [of E w ps fmt]
  by (simp add: read_sequences_def drain_PathLike drain_clean)

theorem read_sequences_single_path_cast_witness:
  "drain sample_libs sample_world (read_sequences (PathLike ''a.fasta/'') ''fasta'') =
     drain sample_libs sample_world (read_sequences (PathList [''a.fasta'']) ''fasta'')
   \<and> list_all (clean_path sample_libs ''fasta'' sample_world) [''b.fasta'', ''a.fasta'', ''b.fasta'']
   \<and> attempts (trace (fst (drain sample_libs sample_world
         (read_sequences (PathList [''b.fasta'', ''a.fasta'', ''b.fasta'']) ''fasta'')))) =
       [''b.fasta'', ''a.fasta'', ''b.fasta'']"
proof -
  have c: "list_all (clean_path sample_libs ''fasta'' sample_world)
             [''b.fasta'', ''a.fasta'', ''b.fasta'']"
    by (simp add: sample_clean)
  have t: "attempts (trace sample_world) = []" by (simp add: sample_world_def)
  from read_sequences_single_path_cast
         [of sample_libs sample_world "''a.fasta/''" "''fasta''"
             "[''b.fasta'', ''a.fasta'', ''b.fasta'']"] c t
  show ?thesis by (simp add: sample_Path_slash)
qed

text \<open>
  The claim as first stated compares \<^verbatim>\<open>read_sequences(p)\<close> with
  \<^verbatim>\<open>read_sequences([p])\<close>. The cast makes a difference where \<^verbatim>\<open>Path(p)\<close> is not \<open>p\<close>:
  with a file \<^verbatim>\<open>a.fasta\<close> in place, the single name \<^verbatim>\<open>"a.fasta/"\<close> is cast to
  \<^verbatim>\<open>a.fasta\<close> and read, while the list \<^verbatim>\<open>["a.fasta/"]\<close> reaches \<^verbatim>\<open>xopen\<close> as it is and
  the open fails.
\<close>

theorem read_sequences_single_path_counterexample:
  "snd (drain sample_libs sample_world (read_sequences (PathLike ''a.fasta/'') ''fasta'')) =
     ([SeqRecord ''SEQ_1'' ''ACGT'', SeqRecord ''SEQ_2'' ''GGCC''], None)
   \<and> snd (drain sample_libs sample_world (read_sequences (PathList [''a.fasta/'']) ''fasta'')) =
     ([], Some (NotADirectoryError ''a.fasta/''))"
proof -
  have p: "SeqIO_parse sample_libs = sample_parse" by (simp add: sample_libs_def)
  show ?thesis
    by (simp add: read_sequences_def drain_PathLike drain_Cons sample_Path_slash
        sample_read_text p sample_parse_a)
qed

section \<open>Laziness\<close>

lemma outcomes_cong_next:
  "gen_next E w g = gen_next E w2 g2 \<Longrightarrow> outcomes E (Suc m) w g = outcomes E (Suc m) w2 g2"
  by simp

lemma outcomes_Suspended:
  "outcomes E (length rs + m) w (Suspended h rs fin ps fmt) =
     map Yield rs @ outcomes E m w (Suspended h [] fin ps fmt)"
  by (induction rs) simp_all

lemma outcomes_clean_path:
  assumes "read_text w p = Inr (l, t)" and "SeqIO_parse E fmt t = (rs, None)"
  shows "outcomes E (length rs + Suc m) w (Created (PathList (p # ps)) fmt) =
           map Yield rs @ outcomes E (Suc m) (after_read w p) (Created (PathList ps) fmt)"
proof (cases rs)
  case Nil
  have "outcomes E (Suc m) w (Created (PathList (p # ps)) fmt) =
        outcomes E (Suc m) (after_read w p) (Created (PathList ps) fmt)"
    by (rule outcomes_cong_next) (simp add: assms Nil after_read_def)
  with Nil show ?thesis by simp
next
  case (Cons r rs')
  have a: "outcomes E (length rs' + Suc m) (acquire w p Rd)
             (Suspended (next_handle w) rs' None ps fmt) =
           map Yield rs' @ outcomes E (Suc m) (acquire w p Rd)
             (Suspended (next_handle w) [] None ps fmt)"
    by (rule outcomes_Suspended)
  have b: "outcomes E (Suc m) (acquire w p Rd) (Suspended (next_handle w) [] None ps fmt) =
           outcomes E (Suc m) (after_read w p) (Created (PathList ps) fmt)"
    by (rule outcomes_cong_next) (simp add: after_read_def)
  have "outcomes E (Suc (length rs' + Suc m)) w (Created (PathList (p # ps)) fmt) =
        Yield r # outcomes E (length rs' + Suc m) (acquire w p Rd)
          (Suspended (next_handle w) rs' None ps fmt)"
    using assms Cons by simp
  with a b Cons show ?thesis by simp
qed

lemma outcomes_clean_prefix:
  "list_all (clean_path E fmt w) good \<Longrightarrow>
     outcomes E (length (concat (map (records_at E fmt w) good)) + Suc m) w
       (Created (PathList (good @ qs)) fmt) =
     map Yield (concat (map (records_at E fmt w) good))
       @ outcomes E (Suc m) (foldl after_read w good) (Created (PathList qs) fmt)"
proof (induction good arbitrary: w)
  case Nil
  show ?case by (simp del: outcomes.simps)
next
  case (Cons p good)
  from Cons.prems obtain l t where
    rt: "read_text w p = Inr (l, t)" and pr: "SeqIO_parse E fmt t = (records_at E fmt w p, None)"
    using clean_pathD [of E fmt w p] by auto
  have same: "clean_path E fmt (after_read w p) = clean_path E fmt w"
    "records_at E fmt (after_read w p) = records_at E fmt w"
    using clean_path_cong [of "after_read w p" w E fmt] records_at_cong [of "after_read w p" w E fmt]
    by auto
  let ?R = "records_at E fmt w"
  let ?k = "length (concat (map ?R good))"
  from Cons.prems have "list_all (clean_path E fmt (after_read w p)) good"
    by (simp add: same)
  from Cons.IH [OF this]
  have ih: "outcomes E (?k + Suc m) (after_read w p) (Created (PathList (good @ qs)) fmt) =
            map Yield (concat (map ?R good))
              @ outcomes E (Suc m) (foldl after_read (after_read w p) good)
                  (Created (PathList qs) fmt)"
    by (simp only: same)
  have e1: "length (concat (map ?R (p # good))) + Suc m = length (?R p) + Suc (?k + m)"
    by simp
  have e2: "Suc (?k + m) = ?k + Suc m" by simp
  have "outcomes E (length (concat (map ?R (p # good))) + Suc m) w
          (Created (PathList ((p # good) @ qs)) fmt) =
        outcomes E (length (?R p) + Suc (?k + m)) w (Created (PathList (p # (good @ qs))) fmt)"
    by (simp only: e1 append_Cons)
  also have "\<dots> = map Yield (?R p)
              @ outcomes E (Suc (?k + m)) (after_read w p) (Created (PathList (good @ qs)) fmt)"
    by (rule outcomes_clean_path [OF rt pr])
  also have "\<dots> = map Yield (?R p)
              @ (map Yield (concat (map ?R good))
                 @ outcomes E (Suc m) (foldl after_read (after_read w p) good)
                     (Created (PathList qs) fmt))"
    by (simp only: e2 ih)
  also have "\<dots> = map Yield (concat (map ?R (p # good)))
              @ outcomes E (Suc m) (foldl after_read w (p # good)) (Created (PathList qs) fmt)"
    by (simp del: outcomes.simps)
  finally show ?case .
qed

lemma outcomes_open_error:
  assumes "list_all (clean_path E fmt w) good" and "read_text w p = Inl e"
  shows "outcomes E (Suc (length (concat (map (records_at E fmt w) good)))) w
           (Created (PathList (good @ p # rest)) fmt) =
         map Yield (concat (map (records_at E fmt w) good)) @ [Raise e]"
proof -
  let ?k = "length (concat (map (records_at E fmt w) good))"
  let ?w = "foldl after_read w good"
  from assms(2) have "read_text ?w p = Inl e" by simp
  then have tail: "outcomes E (Suc 0) ?w (Created (PathList (p # rest)) fmt) = [Raise e]"
    by simp
  have idx: "Suc ?k = ?k + Suc 0" by simp
  show ?thesis
    by (simp only: idx outcomes_clean_prefix [OF assms(1)] tail)
qed

lemma outcomes_parse_error:
  assumes "list_all (clean_path E fmt w) good" and "read_text w p = Inr (l, t)"
    and "SeqIO_parse E fmt t = (rs, Some e)"
  shows "outcomes E (Suc (length (concat (map (records_at E fmt w) good)) + length rs)) w
           (Created (PathList (good @ p # rest)) fmt) =
         map Yield (concat (map (records_at E fmt w) good) @ rs) @ [Raise e]"
proof -
  let ?k = "length (concat (map (records_at E fmt w) good))"
  let ?w = "foldl after_read w good"
  have rt: "read_text ?w p = Inr (l, t)" using assms(2) by simp
  have tail: "outcomes E (Suc (length rs)) ?w (Created (PathList (p # rest)) fmt) =
              map Yield rs @ [Raise e]"
  proof (cases rs)
    case Nil
    with rt assms(3) show ?thesis by simp
  next
    case (Cons r rs')
    have a: "outcomes E (length rs' + Suc 0) (acquire ?w p Rd)
            (Suspended (next_handle ?w) rs' (Some e) rest fmt) =
          map Yield rs' @ outcomes E (Suc 0) (acquire ?w p Rd)
            (Suspended (next_handle ?w) [] (Some e) rest fmt)"
      by (rule outcomes_Suspended)
    have b: "outcomes E (Suc 0) (acquire ?w p Rd)
            (Suspended (next_handle ?w) [] (Some e) rest fmt) = [Raise e]"
      by simp
    have c: "outcomes E (Suc (length rs)) ?w (Created (PathList (p # rest)) fmt) =
          Yield r # outcomes E (length rs' + Suc 0) (acquire ?w p Rd)
            (Suspended (next_handle ?w) rs' (Some e) rest fmt)"
      using rt assms(3) Cons by simp
    show ?thesis by (simp only: c a b) (simp add: Cons)
  qed
  have idx: "Suc (?k + length rs) = ?k + Suc (length rs)" by simp
  show ?thesis
    by (simp only: idx outcomes_clean_prefix [OF assms(1)] tail map_append append_assoc)
qed

lemma read_text_after_read [simp]: "read_text (after_read w p) q = read_text w q"
  by (rule read_text_cong) simp_all

lemma sample_parse_unknown:
  "SeqIO_parse sample_libs ''nosuchformat'' t = ([], Some (ValueError ''nosuchformat''))"
  by (simp add: sample_libs_def sample_parse_def)

text \<open>
  C9 (as amended). Calling \<^verbatim>\<open>read_sequences\<close> only makes a generator that has not
  started: for any input, valid or not, the call does no I/O and raises nothing
  (dropping the generator again leaves the world as it was). An error is raised by the
  \<^verbatim>\<open>next\<close> that reaches it, never by the call. A path that cannot be opened raises the
  error of the open, and a file the codec rejects (an unrecognized format tag, bad
  content) raises the codec's error, at the \<^verbatim>\<open>next\<close> that follows the records of the
  paths before it and of the file itself: the first \<^verbatim>\<open>next\<close> when the path is the
  first and no record precedes the error. Where the iteration never reaches the codec,
  the error of an unrecognized format tag is never raised: an empty list of paths ends
  the stream at once, and a first path that cannot be opened ends it with the error
  of the open.
\<close>

theorem read_sequences_errors_when_reached:
  "read_sequences paths fmt = Created paths fmt
   \<and> gen_close w (read_sequences paths fmt) = (w, Finished)
   \<and> (path_list E paths = q # qs \<and> read_text w q = Inl e \<longrightarrow>
        gen_next E w (read_sequences paths fmt) = (failed_open w q Rd e, Finished, Raise e))
   \<and> (path_list E paths = q # qs \<and> read_text w q = Inr (l, t)
        \<and> SeqIO_parse E fmt t = ([], Some e) \<longrightarrow>
        gen_next E w (read_sequences paths fmt) = (after_read w q, Finished, Raise e))
   \<and> (list_all (clean_path E fmt w) good \<and> read_text w p = Inl e \<longrightarrow>
        outcomes E (Suc (length (concat (map (records_at E fmt w) good)))) w
          (read_sequences (PathList (good @ p # rest)) fmt) =
        map Yield (concat (map (records_at E fmt w) good)) @ [Raise e])
   \<and> (list_all (clean_path E fmt w) good \<and> read_text w p = Inr (l, t)
        \<and> SeqIO_parse E fmt t = (rs, Some e) \<longrightarrow>
        outcomes E (Suc (length (concat (map (records_at E fmt w) good)) + length rs)) w
          (read_sequences (PathList (good @ p # rest)) fmt) =
        map Yield (concat (map (records_at E fmt w) good) @ rs) @ [Raise e])
   \<and> drain E w (read_sequences (PathList []) fmt) = (w, [], None)
   \<and> (read_text w p = Inl e \<longrightarrow>
        drain E w (read_sequences (PathList (p # rest)) fmt) = (failed_open w p Rd e, [], Some e))"
proof -
  have a: "list_all (clean_path E fmt w) good \<and> read_text w p = Inl e \<longrightarrow>
        outcomes E (Suc (length (concat (map (records_at E fmt w) good)))) w
          (read_sequences (PathList (good @ p # rest)) fmt) =
        map Yield (concat (map (records_at E fmt w) good)) @ [Raise e]"
    unfolding read_sequences_def using outcomes_open_error [of E fmt w good p e rest] by blast
  have b: "list_all (clean_path E fmt w) good \<and> read_text w p = Inr (l, t)
        \<and> SeqIO_parse E fmt t = (rs, Some e) \<longrightarrow>
        outcomes E (Suc (length (concat (map (records_at E fmt w) good)) + length rs)) w
          (read_sequences (PathList (good @ p # rest)) fmt) =
        map Yield (concat (map (records_at E fmt w) good) @ rs) @ [Raise e]"
    unfolding read_sequences_def using outcomes_parse_error [of E fmt w good p l t rs e rest]
    by blast
  have c: "read_sequences paths fmt = Created paths fmt
   \<and> gen_close w (read_sequences paths fmt) = (w, Finished)
   \<and> (path_list E paths = q # qs \<and> read_text w q = Inl e \<longrightarrow>
        gen_next E w (read_sequences paths fmt) = (failed_open w q Rd e, Finished, Raise e))
   \<and> (path_list E paths = q # qs \<and> read_text w q = Inr (l, t)
        \<and> SeqIO_parse E fmt t = ([], Some e) \<longrightarrow>
        gen_next E w (read_sequences paths fmt) = (after_read w q, Finished, Raise e))"
    by (simp add: read_sequences_def after_read_def)
  have d: "drain E w (read_sequences (PathList []) fmt) = (w, [], None)
   \<and> (read_text w p = Inl e \<longrightarrow>
        drain E w (read_sequences (PathList (p # rest)) fmt) = (failed_open w p Rd e, [], Some e))"
    by (simp add: read_sequences_def drain_Cons)
  from a b c d show ?thesis by blast
qed

theorem read_sequences_errors_when_reached_witness:
  "gen_close sample_world (read_sequences (PathLike ''missing.fasta'') ''fasta'') =
     (sample_world, Finished)
   \<and> gen_next sample_libs sample_world (read_sequences (PathLike ''missing.fasta'') ''fasta'') =
     (failed_open sample_world ''missing.fasta'' Rd (FileNotFoundError ''missing.fasta''),
      Finished, Raise (FileNotFoundError ''missing.fasta''))
   \<and> gen_next sample_libs sample_world (read_sequences (PathList [''b.fasta'']) ''nosuchformat'') =
     (after_read sample_world ''b.fasta'', Finished, Raise (ValueError ''nosuchformat''))
   \<and> list_all (clean_path sample_libs ''fasta'' sample_world) [''a.fasta'']
   \<and> outcomes sample_libs 3 sample_world
       (read_sequences (PathList [''a.fasta'', ''missing.fasta'', ''b.fasta'']) ''fasta'') =
     [Yield (SeqRecord ''SEQ_1'' ''ACGT''), Yield (SeqRecord ''SEQ_2'' ''GGCC''),
      Raise (FileNotFoundError ''missing.fasta'')]"
proof -
  have a: "path_list sample_libs (PathLike ''missing.fasta'') = [''missing.fasta'']"
    by (simp add: sample_libs_def posix_Path_def)
  have b: "path_list sample_libs (PathList [''b.fasta'']) = [''b.fasta'']" by simp
  have c: "list_all (clean_path sample_libs ''fasta'' sample_world) [''a.fasta'']"
    by (simp add: sample_clean)
  have n: "(3::nat) = Suc (length [SeqRecord ''SEQ_1'' ''ACGT'', SeqRecord ''SEQ_2'' ''GGCC''])"
    by simp
  from read_sequences_errors_when_reached
         [where paths = "PathLike ''missing.fasta''" and fmt = "''fasta''" and w = sample_world
            and E = sample_libs and q = "''missing.fasta''" and qs = "[]"
            and e = "FileNotFoundError ''missing.fasta''" and good = "[''a.fasta'']"
            and p = "''missing.fasta''" and rest = "[''b.fasta'']"]
       read_sequences_errors_when_reached
         [where paths = "PathList [''b.fasta'']" and fmt = "''nosuchformat''" and w = sample_world
            and E = sample_libs and q = "''b.fasta''" and qs = "[]"
            and e = "ValueError ''nosuchformat''" and l = 1
            and t = "fasta_text (SeqRecord ''SEQ_3'' ''TTAA'')"]
       a b c sample_read_text sample_records_at sample_parse_unknown
  show ?thesis by (simp only: n) (simp del: outcomes.simps add: after_read_def)
qed

text \<open>
  The claim as first stated has the error of every invalid input raised when the
  stream is first iterated. With a format tag the codec does not know, an empty list
  of paths raises nothing at all, and a list whose first path is missing raises the
  error of the open only. With a missing path in second place, the first \<^verbatim>\<open>next\<close>
  yields a record; the error of the open comes with the third.
\<close>

theorem read_sequences_first_next_counterexample:
  "SeqIO_parse sample_libs ''nosuchformat''
       (fasta_text (SeqRecord ''SEQ_1'' ''ACGT'') @ fasta_text (SeqRecord ''SEQ_2'' ''GGCC'')) =
     ([], Some (ValueError ''nosuchformat''))
   \<and> drain sample_libs sample_world (read_sequences (PathList []) ''nosuchformat'') =
     (sample_world, [], None)
   \<and> snd (drain sample_libs sample_world
            (read_sequences (PathList [''missing.fasta'', ''a.fasta'']) ''nosuchformat'')) =
     ([], Some (FileNotFoundError ''missing.fasta''))
   \<and> read_text sample_world ''missing.fasta'' = Inl (FileNotFoundError ''missing.fasta'')
   \<and> snd (snd (gen_next sample_libs sample_world
            (read_sequences (PathList [''a.fasta'', ''missing.fasta'']) ''fasta''))) =
     Yield (SeqRecord ''SEQ_1'' ''ACGT'')
   \<and> snd (drain sample_libs sample_world
            (read_sequences (PathList [''a.fasta'', ''missing.fasta'']) ''fasta'')) =
     ([SeqRecord ''SEQ_1'' ''ACGT'', SeqRecord ''SEQ_2'' ''GGCC''],
      Some (FileNotFoundError ''missing.fasta''))"
proof -
  have p: "SeqIO_parse sample_libs ''fasta'' = sample_parse ''fasta''"
    by (simp add: sample_libs_def)
  show ?thesis
    by (simp add: read_sequences_def drain_Cons sample_read_text sample_parse_unknown p
        sample_parse_a)
qed

section \<open>Writing\<close>

lemma after_write_view [simp]:
  "locate (after_write w path l t) = locate w"
  "disk (after_write w path l t) = (disk w)(l \<mapsto> t)"
  "open_handles (after_write w path l t) = open_handles w"
  "trace (after_write w path l t) =
     trace w @ [Opened path Wt (next_handle w), Wrote (next_handle w) t, Closed (next_handle w)]"
  by (simp_all add: after_write_def close_handle_def write_handle_def acquire_def)

lemma write_sequences_opened:
  "\<not> isinstance_SeqRecord s \<Longrightarrow> locate w Wt path = Inr l \<Longrightarrow>
     write_sequences E w s path fmt =
       (after_write w path l (fst (SeqIO_write E fmt s)), snd (SeqIO_write E fmt s))"
  by (simp add: write_sequences_def after_write_def split: prod.splits)

lemma write_sequences_open_failed:
  "\<not> isinstance_SeqRecord s \<Longrightarrow> locate w Wt path = Inl e \<Longrightarrow>
     write_sequences E w s path fmt = (failed_open w path Wt e, Inl e)"
  by (simp add: write_sequences_def)

lemma write_sequences_guarded:
  "isinstance_SeqRecord s \<Longrightarrow> write_sequences E w s path fmt = (w, Inl guard_error)"
  by (simp add: write_sequences_def)

lemma isinstance_SeqRecord_simps [simp]:
  "isinstance_SeqRecord (OneRecord r)"
  "\<not> isinstance_SeqRecord (Records rs)"
  "\<not> isinstance_SeqRecord (PyStr x)"
  "\<not> isinstance_SeqRecord PyObject"
  by (simp_all add: isinstance_SeqRecord_def)

lemma sample_counts_records: "counts_records sample_libs"
  by (auto simp: counts_records_def sample_libs_def sample_write_def split: if_splits)

lemma sample_locate_simps:
  "locate sample_world m ''out.fasta.gz'' = Inr 2"
  "locate sample_world Wt ''locked/out.fasta'' = Inl (PermissionError ''locked/out.fasta'')"
  "locate sample_world m ''a.fasta'' = Inr 0"
  by (simp_all add: sample_world_def sample_locate_def)

text \<open>
  C5. Given an iterable collection of records that serializes successfully (the
  destination opens and the serializer returns), \<^verbatim>\<open>write_sequences\<close> opens the
  destination once, leaves in it exactly the text the serializer wrote for those
  records, closes it, and returns the integer the serializer returned for them: the
  count of records serialized to the destination, which is the number of records in
  the input.
\<close>

theorem write_sequences_returns_count:
  assumes "counts_records E"
    and "locate w Wt path = Inr l"
    and "SeqIO_write E fmt (Records rs) = (t, Inr n)"
  shows "write_sequences E w (Records rs) path fmt = (after_write w path l t, Inr n)
         \<and> disk (fst (write_sequences E w (Records rs) path fmt)) l = Some t
         \<and> trace (fst (write_sequences E w (Records rs) path fmt)) =
             trace w @ [Opened path Wt (next_handle w), Wrote (next_handle w) t,
                        Closed (next_handle w)]
         \<and> n = length rs"
proof -
  from assms(1,3) have "n = length rs" unfolding counts_records_def by blast
  moreover from assms(2,3)
  have "write_sequences E w (Records rs) path fmt = (after_write w path l t, Inr n)"
    by (simp add: write_sequences_opened)
  ultimately show ?thesis by simp
qed

theorem write_sequences_returns_count_witness:
  "counts_records sample_libs
   \<and> locate sample_world Wt ''out.fasta.gz'' = Inr 2
   \<and> snd (write_sequences sample_libs sample_world
            (Records [SeqRecord ''SEQ_1'' ''ACGT'', SeqRecord ''SEQ_2'' ''GGCC'', SeqRecord ''SEQ_3'' ''TTAA''])
            ''out.fasta.gz'' ''fasta'') = Inr 3
   \<and> disk (fst (write_sequences sample_libs sample_world
            (Records [SeqRecord ''SEQ_1'' ''ACGT'', SeqRecord ''SEQ_2'' ''GGCC'', SeqRecord ''SEQ_3'' ''TTAA''])
            ''out.fasta.gz'' ''fasta'')) 2 =
       Some (fasta_text (SeqRecord ''SEQ_1'' ''ACGT'') @ fasta_text (SeqRecord ''SEQ_2'' ''GGCC'')
             @ fasta_text (SeqRecord ''SEQ_3'' ''TTAA''))
   \<and> length (filter (\<lambda>ln. take 1 ln = ''>'')
        (split_on (CHR 0x0A)
           (fasta_text (SeqRecord ''SEQ_1'' ''ACGT'') @ fasta_text (SeqRecord ''SEQ_2'' ''GGCC'')
            @ fasta_text (SeqRecord ''SEQ_3'' ''TTAA'')))) = 3"
proof -
  let ?rs = "[SeqRecord ''SEQ_1'' ''ACGT'', SeqRecord ''SEQ_2'' ''GGCC'', SeqRecord ''SEQ_3'' ''TTAA'']"
  have s: "SeqIO_write sample_libs ''fasta'' (Records ?rs) = (concat (map fasta_text ?rs), Inr 3)"
    by (simp add: sample_libs_def sample_write_def)
  have h: "length (filter (\<lambda>ln. take 1 ln = ''>'')
        (split_on (CHR 0x0A)
           (fasta_text (SeqRecord ''SEQ_1'' ''ACGT'') @ fasta_text (SeqRecord ''SEQ_2'' ''GGCC'')
            @ fasta_text (SeqRecord ''SEQ_3'' ''TTAA'')))) = 3"
    by (simp add: fasta_text_def)
  from write_sequences_returns_count [OF sample_counts_records sample_locate_simps(1) s]
    sample_counts_records sample_locate_simps(1) h
  show ?thesis by simp
qed

text \<open>
  C6 (as amended). Every call to \<^verbatim>\<open>write_sequences\<close> that passes the single-record
  guard and opens its destination performs exactly one open, write, close cycle, with
  no stream left open, and empties the destination first: the file then holds exactly
  the text the serializer wrote for the given input, whatever it held before.
\<close>

theorem write_sequences_one_cycle:
  assumes "\<not> isinstance_SeqRecord s" and "locate w Wt path = Inr l"
  shows "trace (fst (write_sequences E w s path fmt)) =
           trace w @ [Opened path Wt (next_handle w),
                      Wrote (next_handle w) (fst (SeqIO_write E fmt s)),
                      Closed (next_handle w)]
         \<and> disk (fst (write_sequences E w s path fmt)) l = Some (fst (SeqIO_write E fmt s))
         \<and> open_handles (fst (write_sequences E w s path fmt)) = open_handles w"
  using assms by (simp add: write_sequences_opened)

theorem write_sequences_one_cycle_witness:
  "\<not> isinstance_SeqRecord (Records [SeqRecord ''SEQ_1'' ''ACGT''])
   \<and> locate sample_world Wt ''out.fasta.gz'' = Inr 2
   \<and> disk sample_world 2 = Some ''stale''
   \<and> trace (fst (write_sequences sample_libs sample_world (Records [SeqRecord ''SEQ_1'' ''ACGT''])
              ''out.fasta.gz'' ''fasta'')) =
       [Opened ''out.fasta.gz'' Wt 0, Wrote 0 (fasta_text (SeqRecord ''SEQ_1'' ''ACGT'')), Closed 0]
   \<and> disk (fst (write_sequences sample_libs sample_world (Records [SeqRecord ''SEQ_1'' ''ACGT''])
              ''out.fasta.gz'' ''fasta'')) 2 = Some (fasta_text (SeqRecord ''SEQ_1'' ''ACGT''))"
proof -
  have g: "\<not> isinstance_SeqRecord (Records [SeqRecord ''SEQ_1'' ''ACGT''])" by simp
  have s: "fst (SeqIO_write sample_libs ''fasta'' (Records [SeqRecord ''SEQ_1'' ''ACGT''])) =
             fasta_text (SeqRecord ''SEQ_1'' ''ACGT'')"
    by (simp add: sample_libs_def sample_write_def)
  have w: "trace sample_world = []" "next_handle sample_world = 0"
    "disk sample_world 2 = Some ''stale''"
    by (simp_all add: sample_world_def sample_disk_def)
  from write_sequences_one_cycle [OF g sample_locate_simps(1), of sample_libs "''fasta''"]
    g s w sample_locate_simps(1)
  show ?thesis by simp
qed

text \<open>
  The claim as first stated speaks of every call. A call with a single record stops at
  the guard: nothing is opened, written or closed, and the destination keeps what it
  held, which is not the serialization of the input.
\<close>

theorem write_sequences_every_call_counterexample:
  "trace (fst (write_sequences sample_libs sample_world (OneRecord (SeqRecord ''SEQ_1'' ''ACGT''))
              ''out.fasta.gz'' ''fasta'')) = []
   \<and> disk (fst (write_sequences sample_libs sample_world (OneRecord (SeqRecord ''SEQ_1'' ''ACGT''))
              ''out.fasta.gz'' ''fasta'')) 2 = Some ''stale''
   \<and> fst (SeqIO_write sample_libs ''fasta'' (OneRecord (SeqRecord ''SEQ_1'' ''ACGT''))) \<noteq> ''stale''"
  by (simp add: write_sequences_guarded sample_world_def sample_disk_def sample_libs_def
      sample_write_def fasta_text_def)



section \<open>Errors of the collaborators\<close>

text \<open>
  C8. An error of the storage layer or of the codec reaches the caller as it was
  raised. Reading: after the records of the paths before it, a path that cannot be
  opened ends the stream with the error of the open, and a file the parser gives up
  on (bad content, unknown format tag) ends it with the parser's error after the
  records parsed so far; the failing path is attempted once and no later path is
  tried. Writing: a destination that cannot be opened gives the error of the open
  after one attempt, and a serializer that raises gives its error, the stream being
  closed.
\<close>

theorem collaborator_errors_propagate_unchanged:
  "(list_all (clean_path E fmt w) good \<and> read_text w p = Inl e \<longrightarrow>
      snd (drain E w (read_sequences (PathList (good @ p # rest)) fmt)) =
        (concat (map (records_at E fmt w) good), Some e)
      \<and> attempts (trace (fst (drain E w (read_sequences (PathList (good @ p # rest)) fmt)))) =
        attempts (trace w) @ good @ [p])
   \<and> (list_all (clean_path E fmt w) good \<and> read_text w p = Inr (l, t)
        \<and> SeqIO_parse E fmt t = (rs, Some e) \<longrightarrow>
      snd (drain E w (read_sequences (PathList (good @ p # rest)) fmt)) =
        (concat (map (records_at E fmt w) good) @ rs, Some e)
      \<and> attempts (trace (fst (drain E w (read_sequences (PathList (good @ p # rest)) fmt)))) =
        attempts (trace w) @ good @ [p])
   \<and> (\<not> isinstance_SeqRecord s \<and> locate w Wt path = Inl e \<longrightarrow>
      write_sequences E w s path fmt = (failed_open w path Wt e, Inl e))
   \<and> (\<not> isinstance_SeqRecord s \<and> locate w Wt path = Inr l \<and> snd (SeqIO_write E fmt s) = Inl e \<longrightarrow>
      snd (write_sequences E w s path fmt) = Inl e
      \<and> attempts (trace (fst (write_sequences E w s path fmt))) = attempts (trace w) @ [path]
      \<and> open_handles (fst (write_sequences E w s path fmt)) = open_handles w)"
  by (simp add: read_sequences_def drain_open_error drain_parse_error
      write_sequences_open_failed write_sequences_opened)

theorem collaborator_errors_propagate_unchanged_witness:
  "snd (drain sample_libs sample_world
          (read_sequences (PathList [''a.fasta'', ''missing.fasta'', ''b.fasta'']) ''fasta'')) =
     ([SeqRecord ''SEQ_1'' ''ACGT'', SeqRecord ''SEQ_2'' ''GGCC''],
      Some (FileNotFoundError ''missing.fasta''))
   \<and> attempts (trace (fst (drain sample_libs sample_world
          (read_sequences (PathList [''a.fasta'', ''missing.fasta'', ''b.fasta'']) ''fasta'')))) =
     [''a.fasta'', ''missing.fasta'']
   \<and> snd (drain sample_libs sample_world
          (read_sequences (PathList [''b.fasta'', ''a.fasta'']) ''genbank'')) =
     ([], Some (ValueError ''genbank''))
   \<and> write_sequences sample_libs sample_world (Records []) ''locked/out.fasta'' ''fasta'' =
     (failed_open sample_world ''locked/out.fasta'' Wt (PermissionError ''locked/out.fasta''),
      Inl (PermissionError ''locked/out.fasta''))
   \<and> snd (write_sequences sample_libs sample_world (Records []) ''out.fasta.gz'' ''genbank'') =
     Inl (ValueError ''genbank'')"
proof -
  have c: "list_all (clean_path sample_libs ''fasta'' sample_world) [''a.fasta'']"
    "list_all (clean_path sample_libs ''genbank'' sample_world) []"
    by (simp_all add: sample_clean)
  have pr: "SeqIO_parse sample_libs ''genbank'' (fasta_text (SeqRecord ''SEQ_3'' ''TTAA'')) =
              ([], Some (ValueError ''genbank''))"
    by (simp add: sample_libs_def sample_parse_def)
  have sw: "snd (SeqIO_write sample_libs ''genbank'' (Records [])) = Inl (ValueError ''genbank'')"
    by (simp add: sample_libs_def sample_write_def)
  have t: "attempts (trace sample_world) = []" by (simp add: sample_world_def)
  from collaborator_errors_propagate_unchanged
         [of sample_libs "''fasta''" sample_world "[''a.fasta'']" "''missing.fasta''"
             "FileNotFoundError ''missing.fasta''" "[''b.fasta'']"]
       collaborator_errors_propagate_unchanged
         [of sample_libs "''genbank''" sample_world "[]" "''b.fasta''"
             "ValueError ''genbank''" "[''a.fasta'']" 1 "fasta_text (SeqRecord ''SEQ_3'' ''TTAA'')" "[]"]
       collaborator_errors_propagate_unchanged
         [of sample_libs "''fasta''" sample_world "[]" _ "PermissionError ''locked/out.fasta''" _ _ _ _
             "Records []" "''locked/out.fasta''"]
       collaborator_errors_propagate_unchanged
         [of sample_libs "''genbank''" sample_world "[]" _ "ValueError ''genbank''" _ 2 _ _
             "Records []" "''out.fasta.gz''"]
       c pr sw t sample_read_text sample_records_at sample_locate_simps
  show ?thesis by simp
qed

section \<open>Writing and reading back\<close>

text \<open>
  C4. Round trip: a collection of records that is well formed for the format tag (the
  codec serializes it and parses its own output back into as many records) is written
  to a path that opens for writing; reading the same path back with the same format
  tag then yields exactly as many records as were written, and ends without an
  error. The name \<^verbatim>\<open>read_sequences\<close> opens is \<^verbatim>\<open>Path(path)\<close>, which has to denote the
  file that was written.
\<close>

theorem write_then_read_preserves_count:
  assumes "roundtrips E fmt rs"
    and "locate w Wt path = Inr l"
    and "locate w Rd (Path E path) = Inr l"
  shows "snd (write_sequences E w (Records rs) path fmt) = snd (SeqIO_write E fmt (Records rs))
         \<and> length (fst (snd (drain E (fst (write_sequences E w (Records rs) path fmt))
                           (read_sequences (PathLike path) fmt)))) = length rs
         \<and> snd (snd (drain E (fst (write_sequences E w (Records rs) path fmt))
                   (read_sequences (PathLike path) fmt))) = None"
proof -
  obtain t res where sw: "SeqIO_write E fmt (Records rs) = (t, res)"
    by (cases "SeqIO_write E fmt (Records rs)")
  with assms(1) obtain rs' where pr: "SeqIO_parse E fmt t = (rs', None)"
    and len: "length rs' = length rs"
    by (auto simp: roundtrips_def split: sum.splits option.splits prod.splits)
  let ?w = "after_write w path l t"
  from assms(2) sw have wr: "write_sequences E w (Records rs) path fmt = (?w, res)"
    by (simp add: write_sequences_opened)
  from assms(3) have "read_text ?w (Path E path) = Inr (l, t)"
    by (simp add: read_text_def)
  with pr have "snd (drain E ?w (read_sequences (PathLike path) fmt)) = (rs', None)"
    by (simp add: read_sequences_def drain_PathLike drain_Cons)
  with wr sw len show ?thesis by simp
qed

theorem write_then_read_preserves_count_witness:
  "roundtrips sample_libs ''fasta''
     [SeqRecord ''SEQ_1'' ''ACGT'', SeqRecord ''SEQ_2'' ''GGCC'', SeqRecord ''SEQ_3'' ''TTAA'']
   \<and> locate sample_world Wt ''out.fasta.gz'' = Inr 2
   \<and> locate sample_world Rd (Path sample_libs ''out.fasta.gz'') = Inr 2
   \<and> length (fst (snd (drain sample_libs
        (fst (write_sequences sample_libs sample_world
               (Records [SeqRecord ''SEQ_1'' ''ACGT'', SeqRecord ''SEQ_2'' ''GGCC'',
                         SeqRecord ''SEQ_3'' ''TTAA''])
               ''out.fasta.gz'' ''fasta''))
        (read_sequences (PathLike ''out.fasta.gz'') ''fasta'')))) = 3"
proof -
  let ?rs = "[SeqRecord ''SEQ_1'' ''ACGT'', SeqRecord ''SEQ_2'' ''GGCC'', SeqRecord ''SEQ_3'' ''TTAA'']"
  have r: "roundtrips sample_libs ''fasta'' ?rs"
    by (simp add: roundtrips_def sample_libs_def sample_write_def sample_parse_def fasta_text_def)
  have p: "Path sample_libs ''out.fasta.gz'' = ''out.fasta.gz''"
    by (simp add: sample_libs_def posix_Path_def)
  have l: "locate sample_world Rd (Path sample_libs ''out.fasta.gz'') = Inr 2"
    by (simp add: p sample_locate_simps)
  from write_then_read_preserves_count [OF r sample_locate_simps(1) l] r l sample_locate_simps(1)
  show ?thesis by simp
qed

section \<open>Handles are released\<close>

lemma for_paths_handles:
  "for_paths E fmt w ps = (w', g', out) \<Longrightarrow>
     open_handles w' = held g' @ open_handles w \<and> ((\<forall>r. out \<noteq> Yield r) \<longrightarrow> g' = Finished)"
proof (induction ps arbitrary: w)
  case Nil
  then show ?case by auto
next
  case (Cons p ps)
  show ?case
  proof (cases "read_text w p")
    case (Inl e)
    with Cons.prems show ?thesis by (auto simp: failed_open_def)
  next
    case (Inr lt)
    obtain l t where lt: "lt = (l, t)" by (cases lt)
    obtain rs fin where pr: "SeqIO_parse E fmt t = (rs, fin)" by (cases "SeqIO_parse E fmt t")
    show ?thesis
    proof (cases rs)
      case (Cons r rs')
      with Cons.prems Inr lt pr show ?thesis by (auto simp: acquire_def)
    next
      case Nil
      show ?thesis
      proof (cases fin)
        case (Some e)
        with Cons.prems Inr lt pr Nil show ?thesis
          by (auto simp: acquire_def close_handle_def)
      next
        case None
        with Cons.prems Inr lt pr Nil
        have "for_paths E fmt (after_read w p) ps = (w', g', out)"
          by (simp add: after_read_def)
        from Cons.IH [OF this] show ?thesis by simp
      qed
    qed
  qed
qed

lemma gen_next_handles:
  assumes "open_handles w = held g @ H" and "gen_next E w g = (w', g', out)"
  shows "open_handles w' = held g' @ H \<and> ((\<forall>r. out \<noteq> Yield r) \<longrightarrow> g' = Finished)"
proof (cases g)
  case (Created paths fmt)
  with assms for_paths_handles [of E fmt w "path_list E paths" w' g' out]
  show ?thesis by simp
next
  case (Suspended h rs fin ps fmt)
  show ?thesis
  proof (cases rs)
    case (Cons r rs')
    with assms Suspended show ?thesis by auto
  next
    case Nil
    show ?thesis
    proof (cases fin)
      case (Some e)
      with assms Suspended Nil show ?thesis by (auto simp: close_handle_def)
    next
      case None
      with assms Suspended Nil
      have "for_paths E fmt (close_handle w h) ps = (w', g', out)"
        and "open_handles (close_handle w h) = H"
        by (simp_all add: close_handle_def)
      with for_paths_handles [of E fmt "close_handle w h" ps w' g' out]
      show ?thesis by simp
    qed
  qed
next
  case Finished
  with assms show ?thesis by auto
qed

lemma drain_handles:
  "open_handles w = held g @ H \<Longrightarrow> open_handles (fst (drain E w g)) = H"
proof (induction E w g rule: drain.induct)
  case (1 E w g)
  obtain w' g' out where n: "gen_next E w g = (w', g', out)" by (cases "gen_next E w g")
  from gen_next_handles [OF "1.prems" n]
  have h: "open_handles w' = held g' @ H" and f: "(\<forall>r. out \<noteq> Yield r) \<longrightarrow> g' = Finished"
    by simp_all
  show ?case
  proof (cases out)
    case (Yield r)
    from "1.IH" [of w' "(g', out)" g' out r] n Yield h
    have "open_handles (fst (drain E w' g')) = H" by simp
    with n Yield show ?thesis
      by (subst drain.simps) (auto split: prod.splits)
  next
    case (Raise e)
    with f h have "open_handles w' = H" by simp
    with n Raise show ?thesis by (subst drain.simps) simp
  next
    case StopIteration
    with f h have "open_handles w' = H" by simp
    with n StopIteration show ?thesis by (subst drain.simps) simp
  qed
qed

lemma advance_handles:
  "open_handles w = held g @ H \<Longrightarrow> advance E n w g = (w', g') \<Longrightarrow>
     open_handles w' = held g' @ H"
proof (induction n arbitrary: w g)
  case 0
  then show ?case by simp
next
  case (Suc n)
  obtain w1 g1 out where n: "gen_next E w g = (w1, g1, out)" by (cases "gen_next E w g")
  from gen_next_handles [OF Suc.prems(1) n] have "open_handles w1 = held g1 @ H" by simp
  moreover from Suc.prems(2) n have "advance E n w1 g1 = (w', g')" by simp
  ultimately show ?case by (rule Suc.IH)
qed

lemma gen_close_handles:
  "open_handles w = held g @ H \<Longrightarrow>
     open_handles (fst (gen_close w g)) = H \<and> snd (gen_close w g) = Finished"
  by (cases g) (simp_all add: close_handle_def)

lemma abandon_after_handles:
  "open_handles w = held g @ H \<Longrightarrow>
     open_handles (fst (abandon_after E n w g)) = H \<and> snd (abandon_after E n w g) = Finished"
proof -
  assume a: "open_handles w = held g @ H"
  obtain w' g' where adv: "advance E n w g = (w', g')" by (cases "advance E n w g")
  from advance_handles [OF a adv] gen_close_handles [of w' g' H] adv
  show ?thesis by (simp add: abandon_after_def)
qed

lemma write_sequences_handles:
  "open_handles (fst (write_sequences E w s path fmt)) = open_handles w"
proof (cases "isinstance_SeqRecord s")
  case True
  then show ?thesis by (simp add: write_sequences_guarded)
next
  case False
  then show ?thesis
    by (cases "locate w Wt path")
      (simp_all add: write_sequences_open_failed write_sequences_opened)
qed

text \<open>
  C7. Every handle \<^verbatim>\<open>read_sequences\<close> and \<^verbatim>\<open>write_sequences\<close> acquire is released on
  every exit path: when the stream is consumed to its end or to the error that ends it
  (an open, parse or format error), when the caller takes any number of items and then
  abandons the generator, and when \<^verbatim>\<open>write_sequences\<close> returns or raises. The open
  streams are then those that were open before.
\<close>

theorem handles_released_on_every_exit:
  "open_handles (fst (drain E w (read_sequences paths fmt))) = open_handles w
   \<and> open_handles (fst (abandon_after E n w (read_sequences paths fmt))) = open_handles w
   \<and> snd (abandon_after E n w (read_sequences paths fmt)) = Finished
   \<and> open_handles (fst (write_sequences E w s path fmt2)) = open_handles w"
  using drain_handles [of w "Created paths fmt" "open_handles w" E]
    abandon_after_handles [of w "Created paths fmt" "open_handles w" E n]
  by (simp add: read_sequences_def write_sequences_handles)

lemma sample_advance_1:
  "advance sample_libs 1 sample_world (read_sequences (PathList [''a.fasta'', ''b.fasta'']) ''fasta'') =
     (acquire sample_world ''a.fasta'' Rd,
      Suspended 0 [SeqRecord ''SEQ_2'' ''GGCC''] None [''b.fasta''] ''fasta'')"
proof -
  have p: "SeqIO_parse sample_libs = sample_parse" by (simp add: sample_libs_def)
  have n: "next_handle sample_world = 0" by (simp add: sample_world_def)
  have "advance sample_libs (Suc 0) sample_world
          (read_sequences (PathList [''a.fasta'', ''b.fasta'']) ''fasta'') =
        (acquire sample_world ''a.fasta'' Rd,
         Suspended 0 [SeqRecord ''SEQ_2'' ''GGCC''] None [''b.fasta''] ''fasta'')"
    by (simp add: read_sequences_def sample_read_text p sample_parse_a n)
  then show ?thesis by simp
qed

theorem handles_released_on_every_exit_witness:
  "open_handles (fst (advance sample_libs 1 sample_world
      (read_sequences (PathList [''a.fasta'', ''b.fasta'']) ''fasta''))) = [0]
   \<and> open_handles (fst (abandon_after sample_libs 1 sample_world
      (read_sequences (PathList [''a.fasta'', ''b.fasta'']) ''fasta''))) = []
   \<and> open_handles (fst (drain sample_libs sample_world
      (read_sequences (PathList [''a.fasta'', ''missing.fasta'']) ''fasta''))) = []
   \<and> open_handles (fst (write_sequences sample_libs sample_world (PyStr ''ACGT'')
      ''out.fasta.gz'' ''fasta'')) = []"
proof -
  have h: "open_handles sample_world = []" "next_handle sample_world = 0"
    by (simp_all add: sample_world_def)
  from handles_released_on_every_exit
         [where E = sample_libs and w = sample_world
            and paths = "PathList [''a.fasta'', ''b.fasta'']" and fmt = "''fasta''" and n = 1
            and s = "PyStr ''ACGT''" and path = "''out.fasta.gz''" and ?fmt2.0 = "''fasta''"]
       handles_released_on_every_exit
         [where E = sample_libs and w = sample_world
            and paths = "PathList [''a.fasta'', ''missing.fasta'']" and fmt = "''fasta''" and n = 1
            and s = "PyStr ''ACGT''" and path = "''out.fasta.gz''" and ?fmt2.0 = "''fasta''"]
       h sample_advance_1
  show ?thesis by (simp add: acquire_def)
qed

end
